theory Spec2Isabelle
  imports Complex_Main "HOL-Library.Multiset" "HOL-Library.Word" "HOL-Library.AList"
begin

section \<open>Python strings and integers\<close>

text \<open>
  Python \<open>str\<close> values are modelled as \<^typ>\<open>string\<close>; every string the fuzzer builds
  itself consists of ASCII characters. Python integers are unbounded and modelled
  as \<^typ>\<open>int\<close>.
\<close>

definition digit_char :: "nat \<Rightarrow> char" where
  "digit_char d = char_of (48 + d)"

text \<open>\<open>str(n)\<close> for a non-negative integer: its decimal digits, most significant first.\<close>

function str_nat :: "nat \<Rightarrow> string" where
  "str_nat n = (if n < 10 then [digit_char n] else str_nat (n div 10) @ [digit_char (n mod 10)])"
  by pat_completeness auto
termination
  by (relation "measure id") auto

declare str_nat.simps [simp del]

text \<open>\<open>str(i)\<close> for any Python integer.\<close>

definition str_int :: "int \<Rightarrow> string" where
  "str_int i = (if i < 0 then CHR ''-'' # str_nat (nat (- i)) else str_nat (nat i))"

text \<open>
  The format specification \<open>06d\<close> of an f-string: sign-aware zero padding to a minimum
  width of six characters; a longer number is not truncated.
\<close>

definition format_06d :: "int \<Rightarrow> string" where
  "format_06d i =
     (let digits = str_nat (nat \<bar>i\<bar>);
          sign = (if i < 0 then ''-'' else '''')
      in sign @ replicate (6 - (length sign + length digits)) CHR ''0'' @ digits)"

text \<open>\<open>s.replace(old, new)\<close> for one-character \<open>old\<close> and \<open>new\<close>: every occurrence is replaced.\<close>

definition replace_char :: "char \<Rightarrow> char \<Rightarrow> string \<Rightarrow> string" where
  "replace_char old new s = map (\<lambda>c. if c = old then new else c) s"

text \<open>\<open>os.path.join(a, b)\<close> and \<open>os.path.basename(p)\<close> on a POSIX system.\<close>

definition path_join :: "string \<Rightarrow> string \<Rightarrow> string" where
  "path_join a b =
     (if b \<noteq> [] \<and> hd b = CHR ''/'' then b
      else if a = [] \<or> last a = CHR ''/'' then a @ b
      else a @ ''/'' @ b)"

definition basename :: "string \<Rightarrow> string" where
  "basename p = rev (takeWhile (\<lambda>c. c \<noteq> CHR ''/'') (rev p))"

section \<open>The random source\<close>

text \<open>
  The generator draws from Python's global random source. Its outcomes are not
  determined by the program, so the source is a parameter: an infinite sequence of
  raw draws. \<open>randbelow n\<close> consumes one draw and yields a number below \<open>n\<close>; every
  number below \<open>n\<close> is the result for some draw.
\<close>

type_synonym rng = "nat \<Rightarrow> nat"

definition randbelow :: "nat \<Rightarrow> rng \<Rightarrow> nat \<times> rng" where
  "randbelow n g = (g 0 mod n, \<lambda>i. g (Suc i))"

text \<open>
  \<open>random.choice(seq)\<close> is \<open>seq[randbelow(len(seq))]\<close>. It raises \<open>IndexError\<close> on an empty
  sequence, which is the \<open>None\<close> branch.
\<close>

definition choice :: "'a list \<Rightarrow> rng \<Rightarrow> ('a \<times> rng) option" where
  "choice seq g =
     (if seq = [] then None
      else (let (k, g') = randbelow (length seq) g in Some (seq ! k, g')))"

text \<open>
  \<open>random.shuffle(x)\<close>: for \<open>i\<close> from \<open>len(x) - 1\<close> down to \<open>1\<close>, exchange \<open>x[i]\<close> with
  \<open>x[j]\<close> for a random \<open>j\<close> below \<open>i + 1\<close>.
\<close>

fun shuffle_from :: "nat \<Rightarrow> 'a list \<Rightarrow> rng \<Rightarrow> 'a list \<times> rng" where
  "shuffle_from 0 x g = (x, g)"
| "shuffle_from (Suc i) x g =
     (let (j, g') = randbelow (Suc i + 1) g
      in shuffle_from i (x[Suc i := x ! j, j := x ! Suc i]) g')"

definition shuffle :: "'a list \<Rightarrow> rng \<Rightarrow> 'a list \<times> rng" where
  "shuffle x g = shuffle_from (length x - 1) x g"

section \<open>Bytes and base64\<close>

type_synonym byte = "8 word"

text \<open>
  \<open>s.encode()\<close>: the UTF-8 encoding of a string. A code point below 128 is one byte;
  the other code points a \<^typ>\<open>char\<close> can hold (128 to 255) take two bytes.
\<close>

definition utf8_char :: "char \<Rightarrow> byte list" where
  "utf8_char c =
     (let n = (of_char c :: nat)
      in if n < 128 then [of_nat n] else [of_nat (192 + n div 64), of_nat (128 + n mod 64)])"

definition encode_utf8 :: "string \<Rightarrow> byte list" where
  "encode_utf8 s = concat (map utf8_char s)"

text \<open>
  \<open>bytes.decode()\<close> on bytes that are all below 128 (the only bytes \<open>b64encode\<close>
  produces): each byte is the character of that code.
\<close>

definition decode_ascii :: "byte list \<Rightarrow> string" where
  "decode_ascii bs = map (\<lambda>b. char_of (unat b)) bs"

text \<open>
  \<open>base64.b64encode\<close> and \<open>base64.b64decode\<close> belong to Python's standard library; they
  are modelled after the standard base64 encoding (RFC 4648) with the alphabet
  \<open>A-Z a-z 0-9 + /\<close> and \<open>=\<close> padding.
\<close>

definition b64_alphabet :: string where
  "b64_alphabet = ''ABCDEFGHIJKLMNOPQRSTUVWXYZabcdefghijklmnopqrstuvwxyz0123456789+/''"

definition b64_sym :: "nat \<Rightarrow> byte" where
  "b64_sym n = of_char (b64_alphabet ! n)"

definition b64_pad :: byte where
  "b64_pad = of_char CHR ''=''"

fun b64encode :: "byte list \<Rightarrow> byte list" where
  "b64encode (a # b # c # rest) =
     [b64_sym (unat a div 4),
      b64_sym (unat a mod 4 * 16 + unat b div 16),
      b64_sym (unat b mod 16 * 4 + unat c div 64),
      b64_sym (unat c mod 64)] @ b64encode rest"
| "b64encode [a, b] =
     [b64_sym (unat a div 4),
      b64_sym (unat a mod 4 * 16 + unat b div 16),
      b64_sym (unat b mod 16 * 4),
      b64_pad]"
| "b64encode [a] =
     [b64_sym (unat a div 4),
      b64_sym (unat a mod 4 * 16),
      b64_pad, b64_pad]"
| "b64encode [] = []"

fun index_of :: "'a \<Rightarrow> 'a list \<Rightarrow> nat option" where
  "index_of x [] = None"
| "index_of x (y # ys) = (if x = y then Some 0 else map_option Suc (index_of x ys))"

definition b64_val :: "char \<Rightarrow> nat option" where
  "b64_val c = index_of c b64_alphabet"

text \<open>
  Decoding of padded base64 text, four characters at a time; \<open>None\<close> stands for
  \<open>binascii.Error\<close> on text that is not a padded base64 encoding.
\<close>

fun b64decode :: "string \<Rightarrow> byte list option" where
  "b64decode [] = Some []"
| "b64decode (c1 # c2 # c3 # c4 # rest) =
     (case (b64_val c1, b64_val c2) of
        (Some s1, Some s2) \<Rightarrow>
          (if c3 = CHR ''='' \<and> c4 = CHR ''='' \<and> rest = [] then
             Some [of_nat (s1 * 4 + s2 div 16)]
           else
             (case b64_val c3 of
                None \<Rightarrow> None
              | Some s3 \<Rightarrow>
                  (if c4 = CHR ''='' \<and> rest = [] then
                     Some [of_nat (s1 * 4 + s2 div 16), of_nat (s2 mod 16 * 16 + s3 div 4)]
                   else
                     (case b64_val c4 of
                        None \<Rightarrow> None
                      | Some s4 \<Rightarrow>
                          map_option
                            (\<lambda>bs. [of_nat (s1 * 4 + s2 div 16),
                                   of_nat (s2 mod 16 * 16 + s3 div 4),
                                   of_nat (s3 mod 4 * 64 + s4)] @ bs)
                            (b64decode rest)))))
      | _ \<Rightarrow> None)"
| "b64decode _ = None"

section \<open>The fuzzer object and its environment\<close>

text \<open>
  A result is a Python dictionary from key names to JSON values; it is an association
  list in insertion order.
\<close>

datatype json = JStr string | JInt int | JNone

type_synonym result_record = "(string \<times> json) list"

definition has_key :: "string \<Rightarrow> result_record \<Rightarrow> bool" where
  "has_key k r = (map_of r k \<noteq> None)"

text \<open>The fields of a \<open>LoopbackFuzzer\<close>; \<open>results\<close> is the only one that changes.\<close>

record fuzzer =
  base_url :: string
  delay :: real
  log_file :: string
  max_patterns :: "int option"
  results :: "result_record list"
  curl_folder :: string

text \<open>
  \<open>__init__\<close> with its defaults left to the caller. It also creates the folder \<open>curl\<close>
  when it is absent; a failure there propagates before any loop starts.
\<close>

definition init :: "string \<Rightarrow> real \<Rightarrow> string \<Rightarrow> int option \<Rightarrow> fuzzer" where
  "init url d lf mp =
     \<lparr>base_url = url, delay = d, log_file = lf, max_patterns = mp,
      results = [], curl_folder = ''curl''\<rparr>"

text \<open>What the program reads of an HTTP response.\<close>

record response =
  status_code :: int
  content :: "byte list"
  headers :: "(string \<times> string) list"
  body_text :: string

text \<open>
  The outcomes of the calls whose result the program does not determine. The request
  returns a response or raises: a \<open>RequestException\<close> (any transport failure, with its
  \<open>str\<close>), \<open>KeyboardInterrupt\<close>, or another \<open>Exception\<close>. Writing a file succeeds or
  raises an \<open>Exception\<close>. The pause completes or is cut short by \<open>KeyboardInterrupt\<close>.
  Here the interrupt arrives only while one of the two blocking calls of the loop body
  is waiting; the section on arrivals from outside adds every other place.
\<close>

datatype get_outcome =
    Responded response
  | RequestException string
  | GetKeyboardInterrupt
  | GetException string

datatype write_outcome = Written | WriteException string

datatype sleep_outcome = Slept | SleepKeyboardInterrupt

record iteration_env =
  get_result :: get_outcome
  write_result :: write_outcome
  sleep_result :: sleep_outcome
  file_time :: string
  record_time :: string

text \<open>What the program does to the outside world, in order.\<close>

datatype event =
    Print string
  | HttpGet string
  | WriteFile string "string list"
  | Sleep real
  | JsonDump string "result_record list"

definition newline :: string where
  "newline = [CHR 0x0A]"

section \<open>Pattern generator\<close>

text \<open>\<open>values = [""] + [str(i) for i in range(32)]\<close>\<close>

definition values_list :: "string list" where
  "values_list = [''''] @ map (\<lambda>i. str_int (int i)) [0..<32]"

text \<open>
  The body of \<open>for count in range(total_patterns)\<close>, run \<open>k\<close> more times: four
  independent choices, joined by \<open>@\<close>, appended to \<open>patterns\<close>.
\<close>

fun generate_loop :: "nat \<Rightarrow> rng \<Rightarrow> string list \<Rightarrow> (string list \<times> rng) option" where
  "generate_loop 0 g patterns = Some (patterns, g)"
| "generate_loop (Suc k) g patterns =
     (case choice values_list g of None \<Rightarrow> None | Some (pos1, g1) \<Rightarrow>
     (case choice values_list g1 of None \<Rightarrow> None | Some (pos2, g2) \<Rightarrow>
     (case choice values_list g2 of None \<Rightarrow> None | Some (pos3, g3) \<Rightarrow>
     (case choice values_list g3 of None \<Rightarrow> None | Some (pos4, g4) \<Rightarrow>
        (let pattern = pos1 @ ''@'' @ pos2 @ ''@'' @ pos3 @ ''@'' @ pos4
         in generate_loop k g4 (patterns @ [pattern]))))))"

text \<open>
  \<open>generate_random_patterns\<close>. The field \<open>max_patterns\<close> is \<open>None\<close> or an integer; the
  test \<open>if self.max_patterns\<close> is Python truthiness, so both \<open>None\<close> and \<open>0\<close> select the
  default \<open>33 ** 4\<close>. \<open>range\<close> of a negative number is empty. The result is
  \<open>None\<close> only if a \<open>random.choice\<close> raises.
\<close>

definition generate_random_patterns :: "fuzzer \<Rightarrow> rng \<Rightarrow> (string list \<times> rng) option" where
  "generate_random_patterns self g =
     (let total_patterns =
            (case max_patterns self of
               None \<Rightarrow> 33 ^ 4
             | Some n \<Rightarrow> if n \<noteq> 0 then n else 33 ^ 4)
      in case generate_loop (nat total_patterns) g [] of
           None \<Rightarrow> None
         | Some (patterns, g') \<Rightarrow> Some (shuffle patterns g'))"

section \<open>Response recorder\<close>

definition apostrophe :: string where
  "apostrophe = [CHR 0x27]"

text \<open>The file name built in \<open>save_curl_response\<close> from the pattern and the sequence number.\<close>

definition artifact_filename :: "string \<Rightarrow> int \<Rightarrow> string" where
  "artifact_filename pattern response_count =
     (let safe_pattern = replace_char CHR ''/'' CHR ''_'' (replace_char CHR ''@'' CHR ''_'' pattern)
      in ''response_'' @ format_06d response_count @ ''_'' @ safe_pattern @ ''.txt'')"

text \<open>The pieces of text written to the artifact file, in order.\<close>

definition artifact_text :: "fuzzer \<Rightarrow> string \<Rightarrow> string \<Rightarrow> response \<Rightarrow> string \<Rightarrow> string list" where
  "artifact_text self pattern encoded_pattern response now =
     [''URL: '' @ base_url self @ encoded_pattern @ newline,
      ''Pattern: '' @ pattern @ newline,
      ''Base64: '' @ encoded_pattern @ newline,
      ''Timestamp: '' @ now @ newline,
      ''Status Code: '' @ str_int (status_code response) @ newline,
      ''Content Length: '' @ str_nat (length (content response)) @ '' bytes'' @ newline,
      replicate 80 CHR ''-'' @ newline,
      ''HEADERS:'' @ newline]
     @ map (\<lambda>(header, v). header @ '': '' @ v @ newline) (headers response)
     @ [replicate 80 CHR ''-'' @ newline,
        ''CONTENT:'' @ newline,
        body_text response]"

text \<open>
  \<open>save_curl_response\<close>: the whole body is inside \<open>try\<close>; any \<open>Exception\<close> while writing
  is printed and the function returns \<open>None\<close>.
\<close>

definition save_curl_response ::
  "fuzzer \<Rightarrow> string \<Rightarrow> string \<Rightarrow> response \<Rightarrow> int \<Rightarrow> iteration_env \<Rightarrow> string option \<times> event list" where
  "save_curl_response self pattern encoded_pattern response response_count env =
     (let filename = artifact_filename pattern response_count;
          filepath = path_join (curl_folder self) filename
      in case write_result env of
           Written \<Rightarrow>
             (Some filepath,
              [WriteFile filepath (artifact_text self pattern encoded_pattern response (file_time env))])
         | WriteException e \<Rightarrow>
             (None, [Print (''Error saving curl response: '' @ e)]))"

section \<open>Request driver\<close>

datatype flow = Continue | Break

text \<open>The condition of the \<open>INTERESTING\<close> line; \<open>and\<close> binds tighter than \<open>or\<close>.\<close>

definition interesting :: "response \<Rightarrow> bool" where
  "interesting response =
     (status_code response \<ge> 400 \<or> status_code response = 200 \<and> length (content response) = 0)"

text \<open>\<open>base64.b64encode(pattern.encode()).decode()\<close>\<close>

definition encoded :: "string \<Rightarrow> string" where
  "encoded pattern = decode_ascii (b64encode (encode_utf8 pattern))"

text \<open>The dictionary \<open>result\<close> of a request that returned a response.\<close>

definition result_dict ::
  "string \<Rightarrow> string \<Rightarrow> string \<Rightarrow> response \<Rightarrow> string option \<Rightarrow> string \<Rightarrow> result_record" where
  "result_dict pattern encoded_pattern url response curl_file now =
     [(''pattern'', JStr pattern),
      (''encoded_pattern'', JStr encoded_pattern),
      (''url'', JStr url),
      (''status_code'', JInt (status_code response)),
      (''content_length'', JInt (int (length (content response)))),
      (''curl_file'', (case curl_file of None \<Rightarrow> JNone | Some path \<Rightarrow> JStr path)),
      (''timestamp'', JStr now)]"

text \<open>The dictionary \<open>error_result\<close> of a request that raised a \<open>RequestException\<close>.\<close>

definition error_result_dict ::
  "string \<Rightarrow> string \<Rightarrow> string \<Rightarrow> string \<Rightarrow> string \<Rightarrow> result_record" where
  "error_result_dict pattern encoded_pattern url e now =
     [(''pattern'', JStr pattern),
      (''encoded_pattern'', JStr encoded_pattern),
      (''url'', JStr url),
      (''error'', JStr e),
      (''timestamp'', JStr now)]"

text \<open>
  One pass through the body of the \<open>for\<close> loop of \<open>fuzz_server\<close>, with its three
  handlers. It returns the fuzzer with its new \<open>results\<close>, what was printed and
  done, and whether the loop goes on. The delay is taken to be non-negative, and an
  interrupt to arrive only while the request or the pause blocks;
  \<open>iteration_with_arrivals\<close> below is the general case.
\<close>

definition iteration ::
  "fuzzer \<Rightarrow> nat \<Rightarrow> nat \<Rightarrow> string \<Rightarrow> iteration_env \<Rightarrow> fuzzer \<times> event list \<times> flow" where
  "iteration self total_patterns i pattern env =
     (let encoded_pattern = encoded pattern;
          url = base_url self @ encoded_pattern;
          progress = ''['' @ str_nat i @ ''/'' @ str_nat total_patterns @ '']'';
          before =
            [Print (newline @ progress),
             Print (''Pattern:    '' @ apostrophe @ pattern @ apostrophe),
             Print (''Base64:     '' @ apostrophe @ encoded_pattern @ apostrophe),
             Print (''URL:        '' @ url),
             HttpGet url]
      in case get_result env of
           Responded response \<Rightarrow>
             (let shown =
                    [Print (''Status:     '' @ str_int (status_code response)),
                     Print (''Length:     '' @ str_nat (length (content response)) @ '' bytes'')];
                  (curl_file, saving) =
                    save_curl_response self pattern encoded_pattern response (int i) env;
                  saved =
                    (case curl_file of
                       None \<Rightarrow> []
                     | Some path \<Rightarrow>
                         if path \<noteq> [] then [Print (''Curl saved: '' @ basename path)] else []);
                  result =
                    result_dict pattern encoded_pattern url response curl_file (record_time env);
                  self' = self\<lparr>results := results self @ [result]\<rparr>;
                  flagged =
                    (if interesting response then
                       [Print (''    [!] INTERESTING: Status '' @ str_int (status_code response)
                               @ '', Length '' @ str_nat (length (content response)))]
                     else []);
                  trace = before @ shown @ saving @ saved @ [Print (replicate 40 CHR ''-'')]
                          @ flagged @ [Sleep (delay self)]
              in case sleep_result env of
                   Slept \<Rightarrow> (self', trace, Continue)
                 | SleepKeyboardInterrupt \<Rightarrow>
                     (self',
                      trace @ [Print (newline @ ''Fuzzing interrupted. Processed '' @ str_nat i
                                      @ ''/'' @ str_nat total_patterns @ '' patterns.'')],
                      Break))
         | RequestException e \<Rightarrow>
             (let error_result =
                    error_result_dict pattern encoded_pattern url e (record_time env)
              in (self\<lparr>results := results self @ [error_result]\<rparr>,
                  before @
                  [Print (newline @ progress @ '' ERROR: '' @ pattern),
                   Print (''Base64: '' @ apostrophe @ encoded_pattern @ apostrophe),
                   Print (''URL: '' @ url),
                   Print (''Error: '' @ e),
                   Print (replicate 40 CHR ''-'')],
                  Continue))
         | GetKeyboardInterrupt \<Rightarrow>
             (self,
              before @ [Print (newline @ ''Fuzzing interrupted. Processed '' @ str_nat i
                               @ ''/'' @ str_nat total_patterns @ '' patterns.'')],
              Break)
         | GetException e \<Rightarrow>
             (self,
              before @
              [Print (newline @ progress @ '' UNEXPECTED ERROR: '' @ e),
               Print (''Pattern: '' @ apostrophe @ pattern @ apostrophe),
               Print (replicate 40 CHR ''-'')],
              Continue))"

text \<open>
  \<open>for i, pattern in enumerate(patterns, 1)\<close>: the environment of iteration \<open>i\<close> is
  \<open>env i\<close>; \<open>break\<close> leaves the remaining patterns untouched.
\<close>

fun fuzz_loop ::
  "fuzzer \<Rightarrow> nat \<Rightarrow> nat \<Rightarrow> string list \<Rightarrow> (nat \<Rightarrow> iteration_env) \<Rightarrow> fuzzer \<times> event list" where
  "fuzz_loop self total_patterns i [] env = (self, [])"
| "fuzz_loop self total_patterns i (pattern # rest) env =
     (case iteration self total_patterns i pattern (env i) of
        (self', evs, Break) \<Rightarrow> (self', evs)
      | (self', evs, Continue) \<Rightarrow>
          (let (self'', evs') = fuzz_loop self' total_patterns (Suc i) rest env
           in (self'', evs @ evs')))"

section \<open>Run reporter\<close>

text \<open>\<open>save_results\<close>: the whole list is dumped to the log file; a failure is printed.\<close>

definition save_results :: "fuzzer \<Rightarrow> write_outcome \<Rightarrow> event list" where
  "save_results self w =
     (case w of
        Written \<Rightarrow>
          [JsonDump (log_file self) (results self),
           Print (newline @ ''Results saved to '' @ log_file self)]
      | WriteException e \<Rightarrow> [Print (''Error saving results: '' @ e)])"

text \<open>
  The loop over \<open>successful\<close> that fills the dictionary \<open>status_codes\<close>;
  \<open>result['status_code']\<close> raises \<open>KeyError\<close> (here \<open>None\<close>) on a record without that key.
\<close>

fun count_status_codes ::
  "result_record list \<Rightarrow> (json \<times> nat) list \<Rightarrow> (json \<times> nat) list option" where
  "count_status_codes [] status_codes = Some status_codes"
| "count_status_codes (result # rest) status_codes =
     (case map_of result ''status_code'' of
        None \<Rightarrow> None
      | Some code \<Rightarrow>
          count_status_codes rest
            (AList.update code
               ((case map_of status_codes code of None \<Rightarrow> 0 | Some c \<Rightarrow> c) + 1)
               status_codes))"

text \<open>
  The numbers \<open>print_summary\<close> computes and prints: the lengths of \<open>self.results\<close>,
  \<open>successful\<close>, \<open>errors\<close> and \<open>curl_files\<close>, and the dictionary \<open>status_codes\<close>. The
  duration it also prints comes from the clock alone.
\<close>

record summary =
  total_count :: nat
  successful_count :: nat
  error_count :: nat
  curl_files_count :: nat
  status_codes :: "(json \<times> nat) list"

definition print_summary :: "fuzzer \<Rightarrow> summary option" where
  "print_summary self =
     (let successful = filter (has_key ''status_code'') (results self);
          errors = filter (has_key ''error'') (results self)
      in case count_status_codes successful [] of
           None \<Rightarrow> None
         | Some codes \<Rightarrow>
             (let curl_files =
                    filter (\<lambda>r. has_key ''curl_file'' r \<and> map_of r ''curl_file'' \<noteq> Some JNone)
                      (results self)
              in Some \<lparr>total_count = length (results self),
                       successful_count = length successful,
                       error_count = length errors,
                       curl_files_count = length curl_files,
                       status_codes = codes\<rparr>))"

section \<open>A whole run\<close>

text \<open>
  \<open>fuzz_server\<close>: generate, loop, save, summarise. The first line of the banner is
  the one \<open>generate_random_patterns\<close> prints. The function returns nothing; the model
  returns the fuzzer it leaves, the trace and the numbers of the summary, or \<open>None\<close>
  if an exception leaves the function.
\<close>

definition fuzz_server ::
  "fuzzer \<Rightarrow> rng \<Rightarrow> (nat \<Rightarrow> iteration_env) \<Rightarrow> write_outcome
     \<Rightarrow> (fuzzer \<times> event list \<times> summary) option" where
  "fuzz_server self g env log_write =
     (case generate_random_patterns self g of
        None \<Rightarrow> None
      | Some (patterns, g') \<Rightarrow>
          (let total_patterns = length patterns;
               banner =
                 [Print ''Generating random patterns...'',
                  Print (''Starting RANDOM fuzzing with '' @ str_nat total_patterns @ '' patterns''),
                  Print (''Target: '' @ base_url self),
                  Print (''Curl responses saved to: '' @ curl_folder self @ ''/''),
                  Print (replicate 80 CHR ''-'')];
               (self', evs) = fuzz_loop self total_patterns 1 patterns env
           in case print_summary self' of
                None \<Rightarrow> None
              | Some report \<Rightarrow> Some (self', banner @ evs @ save_results self' log_write, report)))"

section \<open>The loop with arrivals from outside\<close>

text \<open>
  \<open>iteration\<close>, \<open>fuzz_loop\<close> and \<open>fuzz_server\<close> above describe a run in which the
  delay is not negative and an interrupt arrives, if at all, while the request or the
  pause blocks. This section lifts both restrictions. A \<open>KeyboardInterrupt\<close> is
  raised wherever the program is when the user interrupts it: anywhere in the \<open>try\<close>
  body, also inside \<open>save_curl_response\<close>, which catches \<open>Exception\<close> only and so lets
  it pass; inside a handler; between two iterations; in the reporter. Another
  exception can be raised by any statement of the body. And \<open>time.sleep\<close> raises
  \<open>ValueError\<close> when the delay is negative.

  What an iteration does is a list of actions, so that an arrival can cut it at
  any place.
\<close>

datatype action = Emit event | Append result_record

fun emitted :: "action list \<Rightarrow> event list" where
  "emitted [] = []"
| "emitted (Emit e # acts) = e # emitted acts"
| "emitted (Append r # acts) = emitted acts"

fun appended :: "action list \<Rightarrow> result_record list" where
  "appended [] = []"
| "appended (Emit e # acts) = appended acts"
| "appended (Append r # acts) = r # appended acts"

text \<open>How the \<open>try\<close> body ends: it completes, or one of the three kinds of exception is raised.\<close>

datatype body_end =
    Completed
  | RaisedRequestException string
  | RaisedKeyboardInterrupt
  | RaisedException string

text \<open>
  What arrives from outside: a \<open>KeyboardInterrupt\<close>, or another exception with its
  \<open>str\<close>. In the body it arrives after a number of actions; an arrival in the
  handler region (the handler that runs, or the gap before the next iteration when
  none runs) comes after a number of the handler's actions.
\<close>

datatype arrival = ArrivesKeyboardInterrupt | ArrivesException string

record arrivals =
  in_body :: "(nat \<times> arrival) option"
  in_handler :: "nat option"

text \<open>
  The \<open>try\<close> body of lines 93 to 136 when nothing arrives from outside: its actions in
  order and its end. The text of the lines is that of \<open>iteration\<close>. The append is
  an action of its own, and \<open>time.sleep\<close> raises before it pauses when the delay is
  negative.
\<close>

definition try_body ::
  "fuzzer \<Rightarrow> nat \<Rightarrow> nat \<Rightarrow> string \<Rightarrow> iteration_env \<Rightarrow> action list \<times> body_end" where
  "try_body self total_patterns i pattern env =
     (let encoded_pattern = encoded pattern;
          url = base_url self @ encoded_pattern;
          progress = ''['' @ str_nat i @ ''/'' @ str_nat total_patterns @ '']'';
          before =
            [Emit (Print (newline @ progress)),
             Emit (Print (''Pattern:    '' @ apostrophe @ pattern @ apostrophe)),
             Emit (Print (''Base64:     '' @ apostrophe @ encoded_pattern @ apostrophe)),
             Emit (Print (''URL:        '' @ url)),
             Emit (HttpGet url)]
      in case get_result env of
           Responded response \<Rightarrow>
             (let shown =
                    [Print (''Status:     '' @ str_int (status_code response)),
                     Print (''Length:     '' @ str_nat (length (content response)) @ '' bytes'')];
                  (curl_file, saving) =
                    save_curl_response self pattern encoded_pattern response (int i) env;
                  saved =
                    (case curl_file of
                       None \<Rightarrow> []
                     | Some path \<Rightarrow>
                         if path \<noteq> [] then [Print (''Curl saved: '' @ basename path)] else []);
                  result =
                    result_dict pattern encoded_pattern url response curl_file (record_time env);
                  flagged =
                    (if interesting response then
                       [Print (''    [!] INTERESTING: Status '' @ str_int (status_code response)
                               @ '', Length '' @ str_nat (length (content response)))]
                     else []);
                  acts = before
                         @ map Emit (shown @ saving @ saved @ [Print (replicate 40 CHR ''-'')])
                         @ [Append result] @ map Emit flagged
              in if delay self < 0 then
                   (acts, RaisedException ''sleep length must be non-negative'')
                 else
                   (acts @ [Emit (Sleep (delay self))],
                    (case sleep_result env of
                       Slept \<Rightarrow> Completed
                     | SleepKeyboardInterrupt \<Rightarrow> RaisedKeyboardInterrupt)))
         | RequestException e \<Rightarrow> (before, RaisedRequestException e)
         | GetKeyboardInterrupt \<Rightarrow> (before, RaisedKeyboardInterrupt)
         | GetException e \<Rightarrow> (before, RaisedException e))"

text \<open>
  An arrival in the body after \<open>n\<close> actions: the actions after the first \<open>n\<close> are not done
  and the body ends with what arrived. An arrival later than the body's own end does
  not concern the body.
\<close>

definition cut_body :: "(nat \<times> arrival) option \<Rightarrow> action list \<times> body_end \<Rightarrow> action list \<times> body_end" where
  "cut_body a b =
     (case a of
        None \<Rightarrow> b
      | Some (n, x) \<Rightarrow>
          if n \<le> length (fst b) then
            (take n (fst b),
             (case x of
                ArrivesKeyboardInterrupt \<Rightarrow> RaisedKeyboardInterrupt
              | ArrivesException m \<Rightarrow> RaisedException m))
          else b)"

text \<open>
  The three handlers of lines 138 to 159, chosen by the end of the body: their actions,
  and whether the loop goes on (\<open>break\<close> is in the handler of \<open>KeyboardInterrupt\<close> only).
\<close>

definition handler ::
  "fuzzer \<Rightarrow> nat \<Rightarrow> nat \<Rightarrow> string \<Rightarrow> iteration_env \<Rightarrow> body_end \<Rightarrow> action list \<times> flow" where
  "handler self total_patterns i pattern env ending =
     (let encoded_pattern = encoded pattern;
          url = base_url self @ encoded_pattern;
          progress = ''['' @ str_nat i @ ''/'' @ str_nat total_patterns @ '']''
      in case ending of
           Completed \<Rightarrow> ([], Continue)
         | RaisedRequestException e \<Rightarrow>
             ([Append (error_result_dict pattern encoded_pattern url e (record_time env)),
               Emit (Print (newline @ progress @ '' ERROR: '' @ pattern)),
               Emit (Print (''Base64: '' @ apostrophe @ encoded_pattern @ apostrophe)),
               Emit (Print (''URL: '' @ url)),
               Emit (Print (''Error: '' @ e)),
               Emit (Print (replicate 40 CHR ''-''))],
              Continue)
         | RaisedKeyboardInterrupt \<Rightarrow>
             ([Emit (Print (newline @ ''Fuzzing interrupted. Processed '' @ str_nat i
                            @ ''/'' @ str_nat total_patterns @ '' patterns.''))],
              Break)
         | RaisedException e \<Rightarrow>
             ([Emit (Print (newline @ progress @ '' UNEXPECTED ERROR: '' @ e)),
               Emit (Print (''Pattern: '' @ apostrophe @ pattern @ apostrophe)),
               Emit (Print (replicate 40 CHR ''-''))],
              Continue))"

text \<open>
  One iteration with arrivals: the actions done, and the flow, which is \<open>None\<close> when an
  arrival in the handler region leaves \<open>fuzz_server\<close> (no clause of the \<open>try\<close> statement
  catches what is raised there).
\<close>

definition iteration_with_arrivals ::
  "fuzzer \<Rightarrow> nat \<Rightarrow> nat \<Rightarrow> string \<Rightarrow> iteration_env \<Rightarrow> arrivals \<Rightarrow> action list \<times> flow option" where
  "iteration_with_arrivals self total_patterns i pattern env arr =
     (let (acts, ending) = cut_body (in_body arr) (try_body self total_patterns i pattern env);
          (hs, fl) = handler self total_patterns i pattern env ending
      in case in_handler arr of
           None \<Rightarrow> (acts @ hs, Some fl)
         | Some m \<Rightarrow> if m \<le> length hs then (acts @ take m hs, None) else (acts @ hs, Some fl))"

text \<open>The loop: \<open>None\<close> when an exception leaves it.\<close>

fun fuzz_loop_with_arrivals ::
  "fuzzer \<Rightarrow> nat \<Rightarrow> nat \<Rightarrow> string list \<Rightarrow> (nat \<Rightarrow> iteration_env) \<Rightarrow> (nat \<Rightarrow> arrivals)
     \<Rightarrow> (fuzzer \<times> event list) option" where
  "fuzz_loop_with_arrivals self total_patterns i [] env arr = Some (self, [])"
| "fuzz_loop_with_arrivals self total_patterns i (pattern # rest) env arr =
     (case iteration_with_arrivals self total_patterns i pattern (env i) (arr i) of
        (acts, None) \<Rightarrow> None
      | (acts, Some Break) \<Rightarrow>
          Some (self\<lparr>results := results self @ appended acts\<rparr>, emitted acts)
      | (acts, Some Continue) \<Rightarrow>
          (case fuzz_loop_with_arrivals (self\<lparr>results := results self @ appended acts\<rparr>)
                  total_patterns (Suc i) rest env arr of
             None \<Rightarrow> None
           | Some (self', evs) \<Rightarrow> Some (self', emitted acts @ evs)))"

definition banner :: "fuzzer \<Rightarrow> nat \<Rightarrow> event list" where
  "banner self total_patterns =
     [Print ''Generating random patterns...'',
      Print (''Starting RANDOM fuzzing with '' @ str_nat total_patterns @ '' patterns''),
      Print (''Target: '' @ base_url self),
      Print (''Curl responses saved to: '' @ curl_folder self @ ''/''),
      Print (replicate 80 CHR ''-'')]"

text \<open>
  The whole run. \<open>report_interrupted\<close> says that a \<open>KeyboardInterrupt\<close> arrives while
  \<open>save_results\<close> or \<open>print_summary\<close> runs; neither catches it, so it leaves the function.
\<close>

definition fuzz_server_with_arrivals ::
  "fuzzer \<Rightarrow> rng \<Rightarrow> (nat \<Rightarrow> iteration_env) \<Rightarrow> (nat \<Rightarrow> arrivals) \<Rightarrow> write_outcome \<Rightarrow> bool
     \<Rightarrow> (fuzzer \<times> event list \<times> summary) option" where
  "fuzz_server_with_arrivals self g env arr log_write report_interrupted =
     (case generate_random_patterns self g of
        None \<Rightarrow> None
      | Some (patterns, g') \<Rightarrow>
          (case fuzz_loop_with_arrivals self (length patterns) 1 patterns env arr of
             None \<Rightarrow> None
           | Some (self', evs) \<Rightarrow>
               if report_interrupted then None
               else
                 (case print_summary self' of
                    None \<Rightarrow> None
                  | Some report \<Rightarrow>
                      Some (self',
                            banner self (length patterns) @ evs @ save_results self' log_write,
                            report))))"

section \<open>Vocabulary of the properties\<close>

subsection \<open>Patterns\<close>

text \<open>The fields of a string between occurrences of a delimiter, as \<open>s.split(c)\<close> gives them.\<close>

fun split_on :: "char \<Rightarrow> string \<Rightarrow> string list" where
  "split_on c [] = [[]]"
| "split_on c (x # xs) =
     (if x = c then [] # split_on c xs
      else (case split_on c xs of [] \<Rightarrow> [[x]] | f # fs \<Rightarrow> (x # f) # fs))"

text \<open>A slot is empty or the decimal representation of an integer from 0 to 31.\<close>

definition valid_slot :: "string \<Rightarrow> bool" where
  "valid_slot s = (s = [] \<or> (\<exists>n \<in> {0..31}. s = str_int n))"

text \<open>A pattern has exactly three delimiters, and its four slots are valid.\<close>

definition valid_pattern :: "string \<Rightarrow> bool" where
  "valid_pattern p =
     (count_list p CHR ''@'' = 3 \<and> length (split_on CHR ''@'' p) = 4
      \<and> list_all valid_slot (split_on CHR ''@'' p))"

subsection \<open>Artifact file names, as the specification words them\<close>




subsection \<open>Example inputs\<close>

definition two_patterns :: fuzzer where
  "two_patterns = init ''http://h/?'' 0.01 ''fuzzer_log.json'' (Some 2)"

definition zero_patterns :: fuzzer where
  "zero_patterns = init ''http://h/?'' 0.01 ''fuzzer_log.json'' (Some 0)"

definition all_patterns :: fuzzer where
  "all_patterns = init ''http://h/?'' 0.01 ''fuzzer_log.json'' None"

definition ok_response :: response where
  "ok_response = \<lparr>status_code = 200, content = [79, 75], headers = [(''Server'', ''x'')],
                  body_text = ''OK''\<rparr>"

definition error_response :: response where
  "error_response = \<lparr>status_code = 500, content = [], headers = [], body_text = ''''\<rparr>"

definition env_of :: "get_outcome \<Rightarrow> write_outcome \<Rightarrow> sleep_outcome \<Rightarrow> iteration_env" where
  "env_of g w s =
     \<lparr>get_result = g, write_result = w, sleep_result = s,
      file_time = ''2026-01-01T00:00:00'', record_time = ''2026-01-01T00:00:01''\<rparr>"

definition env_ok :: "nat \<Rightarrow> iteration_env" where
  "env_ok i = env_of (Responded ok_response) Written Slept"

definition env_server_error :: "nat \<Rightarrow> iteration_env" where
  "env_server_error i = env_of (Responded error_response) Written Slept"

definition env_failure_first :: "nat \<Rightarrow> iteration_env" where
  "env_failure_first i =
     (if i = 1 then env_of (RequestException ''timed out'') Written Slept
      else env_of (Responded ok_response) Written Slept)"

definition env_empty_error :: "nat \<Rightarrow> iteration_env" where
  "env_empty_error i = env_of (RequestException '''') Written Slept"

definition env_write_fails :: "nat \<Rightarrow> iteration_env" where
  "env_write_fails i = env_of (Responded ok_response) (WriteException ''disk full'') Slept"


subsection \<open>Observations on a run\<close>

text \<open>A printed line flags a response as interesting when it starts with this marker.\<close>

definition interesting_marker :: string where
  "interesting_marker = ''    [!] INTERESTING''"

fun flag_event :: "event \<Rightarrow> bool" where
  "flag_event (Print line) = (take (length interesting_marker) line = interesting_marker)"
| "flag_event _ = False"

definition flagged :: "event list \<Rightarrow> bool" where
  "flagged evs = list_ex flag_event evs"

fun is_get :: "event \<Rightarrow> bool" where
  "is_get (HttpGet url) = True"
| "is_get _ = False"

text \<open>
  Between every two consecutive requests there is a pause of the configured delay:
  \<open>pending\<close> says that a request has been sent and no such pause has followed it yet.
\<close>

fun paused_between :: "real \<Rightarrow> bool \<Rightarrow> event list \<Rightarrow> bool" where
  "paused_between d pending [] = True"
| "paused_between d pending (HttpGet url # evs) = (\<not> pending \<and> paused_between d True evs)"
| "paused_between d pending (Sleep d' # evs) = paused_between d (pending \<and> d' \<noteq> d) evs"
| "paused_between d pending (e # evs) = paused_between d pending evs"

text \<open>The value a record holds under a key, if it has the key.\<close>

definition field :: "string \<Rightarrow> result_record \<Rightarrow> json option" where
  "field k r = map_of r k"

text \<open>What happened in an iteration, read off its environment.\<close>

definition interrupted :: "iteration_env \<Rightarrow> bool" where
  "interrupted e =
     (case get_result e of
        GetKeyboardInterrupt \<Rightarrow> True
      | Responded r \<Rightarrow> sleep_result e = SleepKeyboardInterrupt
      | _ \<Rightarrow> False)"




text \<open>
  A record is of exactly one variant, and only a success record has the key
  \<open>curl_file\<close>.
\<close>

definition one_variant :: "result_record \<Rightarrow> bool" where
  "one_variant r =
     ((has_key ''status_code'' r \<noteq> has_key ''error'' r)
      \<and> (has_key ''curl_file'' r \<longrightarrow> has_key ''status_code'' r))"

subsection \<open>Runs with arrivals\<close>

text \<open>No arrival in an iteration, and in none.\<close>

definition no_arrival :: arrivals where
  "no_arrival = \<lparr>in_body = None, in_handler = None\<rparr>"

definition quiet :: "nat \<Rightarrow> arrivals" where
  "quiet j = no_arrival"


definition ending_at ::
  "fuzzer \<Rightarrow> string list \<Rightarrow> (nat \<Rightarrow> iteration_env) \<Rightarrow> (nat \<Rightarrow> arrivals) \<Rightarrow> nat \<Rightarrow> flow option" where
  "ending_at self patterns env arr j =
     snd (iteration_with_arrivals self (length patterns) j (patterns ! (j - 1)) (env j) (arr j))"


text \<open>Example: the user interrupts the handler of the transport failure of the first iteration.\<close>

definition interrupt_in_handler :: "nat \<Rightarrow> arrivals" where
  "interrupt_in_handler j =
     (if j = 1 then \<lparr>in_body = None, in_handler = Some 2\<rparr> else no_arrival)"

definition negative_delay :: fuzzer where
  "negative_delay = init ''http://h/?'' (- 1) ''fuzzer_log.json'' (Some 2)"

section \<open>Properties of the pattern generator\<close>

subsection \<open>Digits and values\<close>

lemma digit_char_code: "k < 10 \<Longrightarrow> of_char (digit_char k) = 48 + k"
  by (simp add: digit_char_def)

lemma digit_char_not_at: "k < 10 \<Longrightarrow> digit_char k \<noteq> CHR ''@''"
proof
  assume k: "k < 10" and e: "digit_char k = CHR ''@''"
  have "(of_char (digit_char k) :: nat) = of_char CHR ''@''" using e by simp
  then show False using digit_char_code[OF k] k by simp
qed

lemma str_nat_no_at: "CHR ''@'' \<notin> set (str_nat n)"
proof (induction n rule: str_nat.induct)
  case (1 n)
  show ?case
  proof (cases "n < 10")
    case True
    then show ?thesis using digit_char_not_at[of n] by (subst str_nat.simps) auto
  next
    case False
    have "n mod 10 < 10" by simp
    then show ?thesis using False 1 digit_char_not_at[of "n mod 10"]
      by (subst str_nat.simps) auto
  qed
qed

lemma values_list_nonempty: "values_list \<noteq> []"
  by (simp add: values_list_def)

lemma values_list_member:
  "v \<in> set values_list \<longleftrightarrow> v = [] \<or> (\<exists>n<32. v = str_int (int n))"
  by (auto simp: values_list_def)

lemma values_list_valid:
  assumes "v \<in> set values_list"
  shows "valid_slot v"
proof (cases "v = []")
  case True
  then show ?thesis by (simp add: valid_slot_def)
next
  case False
  then obtain n where n: "n < 32" "v = str_int (int n)"
    using assms values_list_member by auto
  have "int n \<in> {0..31}" using n(1) by auto
  then show ?thesis unfolding valid_slot_def using n(2) by blast
qed

lemma values_list_no_at: "v \<in> set values_list \<Longrightarrow> CHR ''@'' \<notin> set v"
  by (auto simp: values_list_member str_int_def str_nat_no_at)

lemma choice_values: "\<exists>x g'. choice values_list g = Some (x, g') \<and> x \<in> set values_list"
  using values_list_nonempty by (auto simp: choice_def randbelow_def)

subsection \<open>Splitting a joined pattern\<close>

lemma split_on_no_delim: "c \<notin> set s \<Longrightarrow> split_on c s = [s]"
  by (induction s) auto

lemma split_on_append: "c \<notin> set s \<Longrightarrow> split_on c (s @ c # t) = s # split_on c t"
  by (induction s) auto

lemma count_list_absent: "c \<notin> set s \<Longrightarrow> count_list s c = 0"
  by (induction s) auto

lemma pattern_valid:
  assumes "p1 \<in> set values_list" "p2 \<in> set values_list"
    "p3 \<in> set values_list" "p4 \<in> set values_list"
  shows "valid_pattern (p1 @ ''@'' @ p2 @ ''@'' @ p3 @ ''@'' @ p4)"
proof -
  note na = assms[THEN values_list_no_at]
  have sp: "split_on CHR ''@'' (p1 @ ''@'' @ p2 @ ''@'' @ p3 @ ''@'' @ p4) = [p1, p2, p3, p4]"
    using na by (simp add: split_on_append split_on_no_delim)
  have cn: "count_list (p1 @ ''@'' @ p2 @ ''@'' @ p3 @ ''@'' @ p4) CHR ''@'' = 3"
    using na by (simp add: count_list_absent)
  show ?thesis
    unfolding valid_pattern_def sp using cn assms[THEN values_list_valid] by simp
qed

subsection \<open>The sampling loop and the shuffle\<close>

lemma generate_loop_total_valid:
  assumes "\<forall>p \<in> set ps. valid_pattern p"
  shows "\<exists>ps' g'. generate_loop k g ps = Some (ps', g') \<and> length ps' = length ps + k
           \<and> (\<forall>p \<in> set ps'. valid_pattern p)"
  using assms
proof (induction k arbitrary: g ps)
  case 0
  then show ?case by simp
next
  case (Suc k)
  obtain p1 g1 where c1: "choice values_list g = Some (p1, g1)" "p1 \<in> set values_list"
    using choice_values by blast
  obtain p2 g2 where c2: "choice values_list g1 = Some (p2, g2)" "p2 \<in> set values_list"
    using choice_values by blast
  obtain p3 g3 where c3: "choice values_list g2 = Some (p3, g3)" "p3 \<in> set values_list"
    using choice_values by blast
  obtain p4 g4 where c4: "choice values_list g3 = Some (p4, g4)" "p4 \<in> set values_list"
    using choice_values by blast
  let ?p = "p1 @ ''@'' @ p2 @ ''@'' @ p3 @ ''@'' @ p4"
  have step: "generate_loop (Suc k) g ps = generate_loop k g4 (ps @ [?p])"
    using c1(1) c2(1) c3(1) c4(1) by simp
  have "\<forall>p \<in> set (ps @ [?p]). valid_pattern p"
    using Suc.prems pattern_valid[OF c1(2) c2(2) c3(2) c4(2)] by auto
  from Suc.IH[OF this, of g4] show ?case
    unfolding step by auto
qed

lemma shuffle_from_mset:
  "i < length x \<or> i = 0 \<Longrightarrow> mset (fst (shuffle_from i x g)) = mset x"
proof (induction i arbitrary: x g)
  case 0
  then show ?case by simp
next
  case (Suc i)
  then have len: "Suc i < length x" by simp
  obtain j g' where r: "randbelow (Suc i + 1) g = (j, g')" by (cases "randbelow (Suc i + 1) g")
  have "j = g 0 mod (Suc i + 1)" using r by (simp add: randbelow_def)
  then have "j < Suc i + 1" by simp
  then have j: "j < length x" using len by linarith
  let ?x = "x[Suc i := x ! j, j := x ! Suc i]"
  have m: "mset ?x = mset x" using mset_swap[OF j len] .
  have "mset (fst (shuffle_from i ?x g')) = mset ?x"
    using Suc.IH[of ?x g'] len by simp
  then show ?case using r m by simp
qed

lemma shuffle_mset: "mset (fst (shuffle x g)) = mset x"
  unfolding shuffle_def by (rule shuffle_from_mset) (cases x; simp)

lemma length_shuffle: "length (fst (shuffle x g)) = length x"
  using shuffle_mset[of x g] by (metis size_mset)

lemma set_shuffle: "set (fst (shuffle x g)) = set x"
  using shuffle_mset[of x g] by (metis set_mset_mset)

lemma generate_random_patterns_total:
  "\<exists>ps g'. generate_random_patterns self g = Some (ps, g')
     \<and> length ps = nat (case max_patterns self of None \<Rightarrow> 33 ^ 4
                                | Some n \<Rightarrow> if n \<noteq> 0 then n else 33 ^ 4)
     \<and> (\<forall>p \<in> set ps. valid_pattern p)"
proof -
  let ?t = "nat (case max_patterns self of None \<Rightarrow> 33 ^ 4
                                | Some n \<Rightarrow> if n \<noteq> 0 then n else 33 ^ 4)"
  obtain ps0 g0 where l: "generate_loop ?t g [] = Some (ps0, g0)" "length ps0 = ?t"
    "\<forall>p \<in> set ps0. valid_pattern p"
    using generate_loop_total_valid[of "[]" ?t g] by auto
  obtain ps g' where sh: "shuffle ps0 g0 = (ps, g')" by (cases "shuffle ps0 g0")
  have "generate_random_patterns self g = Some (ps, g')"
    using l(1) sh by (simp add: generate_random_patterns_def)
  moreover have "length ps = ?t" using length_shuffle[of ps0 g0] sh l(2) by simp
  moreover have "set ps = set ps0" using set_shuffle[of ps0 g0] sh by simp
  ultimately show ?thesis using l(3) by blast
qed

lemma two_patterns_run:
  "map_option fst (generate_random_patterns two_patterns id)
     = Some [''3@4@5@6'', ''@0@1@2'']"
  by code_simp

text \<open>
  Claim C1. Whatever the random draws are, the generator returns, and every pattern it
  returns has exactly three \<open>@\<close> delimiters and four slots, each of them empty or
  the decimal representation of an integer from 0 to 31.
\<close>

theorem generated_patterns_valid:
  "\<exists>patterns g'. generate_random_patterns self g = Some (patterns, g')
      \<and> (\<forall>p \<in> set patterns. valid_pattern p)"
  using generate_random_patterns_total[of self g] by blast

theorem generated_patterns_valid_witness:
  "\<exists>patterns g'. generate_random_patterns two_patterns id = Some (patterns, g')
      \<and> ''3@4@5@6'' \<in> set patterns \<and> valid_pattern ''3@4@5@6''"
proof -
  obtain patterns g' where
    r: "generate_random_patterns two_patterns id = Some (patterns, g')"
    and v: "\<forall>p \<in> set patterns. valid_pattern p"
    using generated_patterns_valid[of two_patterns id] by blast
  have "patterns = [''3@4@5@6'', ''@0@1@2'']"
    using two_patterns_run r by simp
  then have m: "''3@4@5@6'' \<in> set patterns" by simp
  with v have "valid_pattern ''3@4@5@6''" by blast
  with r m show ?thesis by blast
qed

text \<open>
  Claim C5, as the code has it. For every positive count \<open>n\<close> supplied by the caller the
  generator returns exactly \<open>n\<close> patterns. When no count is supplied, or the count
  supplied is 0, it returns \<open>33 ^ 4 = 1185921\<close> patterns.
\<close>

theorem generated_patterns_count:
  "(\<forall>n. max_patterns self = Some n \<and> 0 < n \<longrightarrow>
      (\<exists>patterns g'. generate_random_patterns self g = Some (patterns, g')
          \<and> int (length patterns) = n))
   \<and> (max_patterns self = None \<or> max_patterns self = Some 0 \<longrightarrow>
      (\<exists>patterns g'. generate_random_patterns self g = Some (patterns, g')
          \<and> length patterns = 1185921))"
  using generate_random_patterns_total[of self g] by auto

theorem generated_patterns_count_witness:
  "max_patterns two_patterns = Some 2 \<and> (0::int) < 2
   \<and> (\<exists>patterns g'. generate_random_patterns two_patterns id = Some (patterns, g')
          \<and> int (length patterns) = 2)
   \<and> max_patterns all_patterns = None
   \<and> (\<exists>patterns g'. generate_random_patterns all_patterns id = Some (patterns, g')
          \<and> length patterns = 1185921)"
proof -
  have a: "max_patterns two_patterns = Some 2" "max_patterns all_patterns = None"
    by (simp_all add: two_patterns_def all_patterns_def init_def)
  show ?thesis
    using generated_patterns_count[of two_patterns id]
      generated_patterns_count[of all_patterns id] a by simp
qed

text \<open>
  The count 0 is a count below the default, and the generator answers it with the
  default number of patterns, not with none.
\<close>

theorem zero_count_counterexample:
  "max_patterns zero_patterns = Some 0
   \<and> map_option (length \<circ> fst) (generate_random_patterns zero_patterns id) = Some 1185921"
  using generate_random_patterns_total[of zero_patterns id]
  by (auto simp: zero_patterns_def init_def)

section \<open>The artifact file name\<close>




section \<open>Base64 round trip\<close>

lemma unat_of_char: "unat (of_char c :: byte) = of_char c"
proof -
  have "(of_char c :: byte) = of_nat (of_char c)" by (simp add: of_nat_of_char)
  then have "unat (of_char c :: byte) = (of_char c :: nat) mod 2 ^ 8"
    by (simp only: unat_of_nat) simp
  moreover have "(of_char c :: nat) < 256" by (rule nat_of_char_less_256)
  ultimately show ?thesis by simp
qed

lemma char_of_byte_of_char: "char_of (unat (of_char c :: byte)) = c"
  by (simp add: unat_of_char)

lemma unat_byte_less: "unat (a :: byte) < 256"
  using unsigned_less[of a, where 'a=nat] by simp

lemma byte_of_unat: "(of_nat (unat a) :: byte) = a"
  by simp

lemma length_b64_alphabet: "length b64_alphabet = 64"
  by (simp add: b64_alphabet_def)

lemma distinct_b64_alphabet: "distinct b64_alphabet"
  by (simp add: b64_alphabet_def)

lemma pad_not_in_alphabet: "CHR ''='' \<notin> set b64_alphabet"
  by (simp add: b64_alphabet_def)

lemma index_of_nth: "distinct xs \<Longrightarrow> n < length xs \<Longrightarrow> index_of (xs ! n) xs = Some n"
proof (induction xs arbitrary: n)
  case Nil
  then show ?case by simp
next
  case (Cons x xs)
  show ?case
  proof (cases n)
    case 0
    then show ?thesis by simp
  next
    case (Suc m)
    then have m: "m < length xs" using Cons.prems by simp
    then have "xs ! m \<in> set xs" by simp
    then have "xs ! m \<noteq> x" using Cons.prems(1) by auto
    then show ?thesis using Suc Cons.IH[of m] Cons.prems(1) m by simp
  qed
qed

lemma b64_val_sym: "n < 64 \<Longrightarrow> b64_val (char_of (unat (b64_sym n))) = Some n"
  by (simp add: b64_val_def b64_sym_def char_of_byte_of_char index_of_nth
      distinct_b64_alphabet length_b64_alphabet)

lemma b64_sym_not_pad: "n < 64 \<Longrightarrow> char_of (unat (b64_sym n)) \<noteq> CHR ''=''"
proof -
  assume "n < 64"
  then have "b64_alphabet ! n \<in> set b64_alphabet"
    by (simp add: length_b64_alphabet)
  then have "b64_alphabet ! n \<noteq> CHR ''=''"
    using pad_not_in_alphabet by metis
  then show ?thesis by (simp add: b64_sym_def char_of_byte_of_char)
qed

lemma b64_pad_char: "char_of (unat b64_pad) = CHR ''=''"
  by (simp only: b64_pad_def char_of_byte_of_char)

lemma sextets:
  fixes a b c :: nat
  assumes "a < 256" "b < 256" "c < 256"
  shows "a div 4 < 64" "a mod 4 * 16 + b div 16 < 64" "b mod 16 * 4 + c div 64 < 64"
    "c mod 64 < 64" "a mod 4 * 16 < 64" "b mod 16 * 4 < 64"
  using assms by simp_all


lemma regroup1:
  fixes a b c :: nat
  assumes "b < 256"
  shows "a div 4 * 4 + (a mod 4 * 16 + b div 16) div 16 = a"
proof -
  have "b div 16 < 16" using assms by simp
  then have "(a mod 4 * 16 + b div 16) div 16 = a mod 4" by simp
  then show ?thesis by simp
qed
lemma regroup2:
  fixes a b c :: nat
  assumes "b < 256" "c < 256"
  shows "(a mod 4 * 16 + b div 16) mod 16 * 16 + (b mod 16 * 4 + c div 64) div 4 = b"
proof -
  have "b div 16 < 16" using assms by simp
  then have x: "(a mod 4 * 16 + b div 16) mod 16 = b div 16" by simp
  have "c div 64 < 4" using assms by simp
  then have y: "(b mod 16 * 4 + c div 64) div 4 = b mod 16" by simp
  show ?thesis unfolding x y by simp
qed
lemma regroup3:
  fixes a b c :: nat
  assumes "c < 256"
  shows "(b mod 16 * 4 + c div 64) mod 4 * 64 + c mod 64 = c"
proof -
  have "c div 64 < 4" using assms by simp
  then have x: "(b mod 16 * 4 + c div 64) mod 4 = c div 64" by simp
  show ?thesis unfolding x by simp
qed
lemma regroup4:
  fixes a :: nat
  shows "a div 4 * 4 + (a mod 4 * 16) div 16 = a"
  by simp
lemma regroup5:
  fixes a b :: nat
  assumes "b < 256"
  shows "(a mod 4 * 16 + b div 16) mod 16 * 16 + (b mod 16 * 4) div 4 = b"
proof -
  have "b div 16 < 16" using assms by simp
  then have x: "(a mod 4 * 16 + b div 16) mod 16 = b div 16" by simp
  show ?thesis unfolding x by simp
qed

lemma regroup:
  fixes a b c :: nat
  assumes "a < 256" "b < 256" "c < 256"
  shows "a div 4 * 4 + (a mod 4 * 16 + b div 16) div 16 = a"
    "(a mod 4 * 16 + b div 16) mod 16 * 16 + (b mod 16 * 4 + c div 64) div 4 = b"
    "(b mod 16 * 4 + c div 64) mod 4 * 64 + c mod 64 = c"
    "a div 4 * 4 + (a mod 4 * 16) div 16 = a"
    "(a mod 4 * 16 + b div 16) mod 16 * 16 + (b mod 16 * 4) div 4 = b"
  using assms regroup1[of b a] regroup2[of b c a] regroup3[of c b] regroup4[of a] regroup5[of b a]
  by blast+

lemma b64_group3:
  fixes a b c :: byte
  defines "c1 \<equiv> char_of (unat (b64_sym (unat a div 4)))"
    and "c2 \<equiv> char_of (unat (b64_sym (unat a mod 4 * 16 + unat b div 16)))"
    and "c3 \<equiv> char_of (unat (b64_sym (unat b mod 16 * 4 + unat c div 64)))"
    and "c4 \<equiv> char_of (unat (b64_sym (unat c mod 64)))"
  shows "b64decode (c1 # c2 # c3 # c4 # rest) = map_option (\<lambda>bs. [a, b, c] @ bs) (b64decode rest)"
proof -
  note bd = unat_byte_less[of a] unat_byte_less[of b] unat_byte_less[of c]
  note sx = sextets[OF bd]
  note rg = regroup[OF bd]
  have v: "b64_val c1 = Some (unat a div 4)"
    "b64_val c2 = Some (unat a mod 4 * 16 + unat b div 16)"
    "b64_val c3 = Some (unat b mod 16 * 4 + unat c div 64)"
    "b64_val c4 = Some (unat c mod 64)"
    unfolding c1_def c2_def c3_def c4_def using sx by (simp_all only: b64_val_sym)
  have n: "c3 \<noteq> CHR ''=''" "c4 \<noteq> CHR ''=''"
    unfolding c3_def c4_def using sx by (simp_all only: b64_sym_not_pad not_False_eq_True)
  have e: "(of_nat (unat a div 4 * 4 + (unat a mod 4 * 16 + unat b div 16) div 16) :: byte) = a"
    "(of_nat ((unat a mod 4 * 16 + unat b div 16) mod 16 * 16
        + (unat b mod 16 * 4 + unat c div 64) div 4) :: byte) = b"
    "(of_nat ((unat b mod 16 * 4 + unat c div 64) mod 4 * 64 + unat c mod 64) :: byte) = c"
    by (simp_all only: rg byte_of_unat)
  show ?thesis
    by (simp only: b64decode.simps v n e option.case prod.case simp_thms if_False)
qed



lemma b64_group2:
  fixes a b :: byte
  defines "c1 \<equiv> char_of (unat (b64_sym (unat a div 4)))"
    and "c2 \<equiv> char_of (unat (b64_sym (unat a mod 4 * 16 + unat b div 16)))"
    and "c3 \<equiv> char_of (unat (b64_sym (unat b mod 16 * 4)))"
  shows "b64decode [c1, c2, c3, CHR ''=''] = Some [a, b]"
proof -
  note bd = unat_byte_less[of a] unat_byte_less[of b] unat_byte_less[of b]
  note sx = sextets[OF bd]
  note rg = regroup[OF bd]
  have v: "b64_val c1 = Some (unat a div 4)"
    "b64_val c2 = Some (unat a mod 4 * 16 + unat b div 16)"
    "b64_val c3 = Some (unat b mod 16 * 4)"
    unfolding c1_def c2_def c3_def using sx by (simp_all only: b64_val_sym)
  have n: "c3 \<noteq> CHR ''=''"
    unfolding c3_def using sx by (simp only: b64_sym_not_pad not_False_eq_True)
  have e: "(of_nat (unat a div 4 * 4 + (unat a mod 4 * 16 + unat b div 16) div 16) :: byte) = a"
    "(of_nat ((unat a mod 4 * 16 + unat b div 16) mod 16 * 16
        + (unat b mod 16 * 4) div 4) :: byte) = b"
    by (simp_all only: rg byte_of_unat)
  show ?thesis
    by (simp only: b64decode.simps v n e option.case prod.case simp_thms if_False if_True)
qed

lemma b64_group1:
  fixes a :: byte
  defines "c1 \<equiv> char_of (unat (b64_sym (unat a div 4)))"
    and "c2 \<equiv> char_of (unat (b64_sym (unat a mod 4 * 16)))"
  shows "b64decode [c1, c2, CHR ''='', CHR ''=''] = Some [a]"
proof -
  note bd = unat_byte_less[of a] unat_byte_less[of a] unat_byte_less[of a]
  note sx = sextets[OF bd]
  note rg = regroup[OF bd]
  have v: "b64_val c1 = Some (unat a div 4)"
    "b64_val c2 = Some (unat a mod 4 * 16)"
    unfolding c1_def c2_def using sx by (simp_all only: b64_val_sym)
  have e: "(of_nat (unat a div 4 * 4 + (unat a mod 4 * 16) div 16) :: byte) = a"
    by (simp only: rg byte_of_unat)
  show ?thesis
    by (simp only: b64decode.simps v e option.case prod.case simp_thms if_True)
qed

lemma b64_roundtrip_bytes: "b64decode (decode_ascii (b64encode bs)) = Some bs"
proof (induction bs rule: b64encode.induct)
  case (1 a b c rest)
  then show ?case
    by (simp add: decode_ascii_def b64_group3 del: b64decode.simps)
next
  case (2 a b)
  show ?case
    using b64_group2[of a b] by (simp add: decode_ascii_def b64_pad_char del: b64decode.simps)
next
  case (3 a)
  show ?case
    using b64_group1[of a] by (simp add: decode_ascii_def b64_pad_char del: b64decode.simps)
next
  case 4
  show ?case by (simp add: decode_ascii_def)
qed

text \<open>
  Claim C9. Encoding the UTF-8 bytes of a pattern (of any string) with base64, reading
  the result as text and decoding that text gives back the original bytes.
\<close>

theorem b64_roundtrip: "b64decode (encoded pattern) = Some (encode_utf8 pattern)"
  unfolding encoded_def by (rule b64_roundtrip_bytes)

lemma encoded_example: "encoded ''5@@12@31'' = ''NUBAMTJAMzE=''"
  by code_simp

section \<open>Properties of the request driver\<close>

subsection \<open>One iteration\<close>

lemma iteration_fuzzer:
  "fst (iteration self t i p env) =
     (case get_result env of
        Responded r \<Rightarrow>
          self\<lparr>results := results self @
            [result_dict p (encoded p) (base_url self @ encoded p) r
               (fst (save_curl_response self p (encoded p) r (int i) env)) (record_time env)]\<rparr>
      | RequestException e \<Rightarrow>
          self\<lparr>results := results self @
            [error_result_dict p (encoded p) (base_url self @ encoded p) e (record_time env)]\<rparr>
      | _ \<Rightarrow> self)"
  by (simp add: iteration_def Let_def case_prod_beta split: get_outcome.splits sleep_outcome.splits)

lemma iteration_flow:
  "snd (snd (iteration self t i p env)) = (if interrupted env then Break else Continue)"
  by (simp add: iteration_def interrupted_def Let_def case_prod_beta
      split: get_outcome.splits sleep_outcome.splits)

lemma save_events_no_get: "filter is_get (snd (save_curl_response self p enc r n env)) = []"
  by (simp add: save_curl_response_def Let_def split: write_outcome.splits)

lemma iteration_requests:
  "filter is_get (fst (snd (iteration self t i p env))) = [HttpGet (base_url self @ encoded p)]"
  by (simp add: iteration_def Let_def case_prod_beta save_events_no_get
      split: get_outcome.splits sleep_outcome.splits option.splits)


lemma not_flag_head: "c \<noteq> CHR '' '' \<Longrightarrow> \<not> flag_event (Print (c # l))"
  by (simp add: interesting_marker_def)

lemma not_flag_dashes: "\<not> flag_event (Print (replicate 40 CHR ''-''))"
  by (simp add: interesting_marker_def eval_nat_numeral)

lemma flag_marker: "flag_event (Print (''    [!] INTERESTING: Status '' @ l))"
  by (simp add: interesting_marker_def)

lemma save_events_not_flagged:
  "\<not> list_ex flag_event (snd (save_curl_response self p enc r n env))"
  by (simp add: save_curl_response_def Let_def interesting_marker_def
      split: write_outcome.splits)

lemma iteration_flagged:
  assumes "get_result env = Responded r"
  shows "flagged (fst (snd (iteration self t i p env))) = interesting r"
  using assms
  by (simp add: flagged_def iteration_def Let_def case_prod_beta save_events_not_flagged
      interesting_marker_def newline_def eval_nat_numeral
      split: sleep_outcome.splits option.splits)

lemma iteration_base_url: "base_url (fst (iteration self t i p env)) = base_url self"
  by (simp add: iteration_fuzzer split: get_outcome.splits)

lemma iteration_get_event:
  "HttpGet (base_url self @ encoded p) \<in> set (fst (snd (iteration self t i p env)))"
proof -
  have "HttpGet (base_url self @ encoded p)
          \<in> set (filter is_get (fst (snd (iteration self t i p env))))"
    by (simp only: iteration_requests) simp
  then show ?thesis by simp
qed

lemma fuzz_loop_continue:
  assumes "\<not> interrupted (env i)"
  shows "fuzz_loop self t i (p # rest) env =
           (fst (fuzz_loop (fst (iteration self t i p (env i))) t (Suc i) rest env),
            fst (snd (iteration self t i p (env i)))
              @ snd (fuzz_loop (fst (iteration self t i p (env i))) t (Suc i) rest env))"
proof -
  obtain s1 e1 f where it: "iteration self t i p (env i) = (s1, e1, f)"
    by (cases "iteration self t i p (env i)")
  have "f = Continue" using iteration_flow[of self t i p "env i"] assms it by simp
  then show ?thesis using it by (simp add: case_prod_beta)
qed

lemma fuzz_loop_break:
  assumes "interrupted (env i)"
  shows "fuzz_loop self t i (p # rest) env =
           (fst (iteration self t i p (env i)), fst (snd (iteration self t i p (env i))))"
proof -
  obtain s1 e1 f where it: "iteration self t i p (env i) = (s1, e1, f)"
    by (cases "iteration self t i p (env i)")
  have "f = Break" using iteration_flow[of self t i p "env i"] assms it by simp
  then show ?thesis using it by simp
qed

lemma next_pattern_requested:
  assumes "\<not> interrupted (env i)"
  shows "HttpGet (base_url self @ encoded q) \<in> set (snd (fuzz_loop self t i (p # q # rest) env))"
proof -
  let ?s = "fst (iteration self t i p (env i))"
  have "HttpGet (base_url ?s @ encoded q) \<in> set (snd (fuzz_loop ?s t (Suc i) (q # rest) env))"
  proof (cases "interrupted (env (Suc i))")
    case True
    show ?thesis
      unfolding fuzz_loop_break[where env=env and i="Suc i", OF True] snd_conv
      by (rule iteration_get_event)
  next
    case False
    show ?thesis
      unfolding fuzz_loop_continue[where env=env and i="Suc i", OF False] snd_conv
      using iteration_get_event[of ?s q t "Suc i" "env (Suc i)"] by simp
  qed
  then show ?thesis
    unfolding fuzz_loop_continue[where env=env and i=i, OF assms] snd_conv iteration_base_url
    by simp
qed

text \<open>
  Claim C2. For every response the driver receives, the line starting with
  \<open>[!] INTERESTING\<close> is printed in that iteration if and only if the status code is at
  least 400, or the status code is 200 and the body is empty.
\<close>

theorem interesting_flag_iff:
  assumes "get_result env = Responded r"
  shows "flagged (fst (snd (iteration self total_patterns i pattern env)))
           \<longleftrightarrow> (status_code r \<ge> 400 \<or> (status_code r = 200 \<and> length (content r) = 0))"
  using iteration_flagged[OF assms] by (simp add: interesting_def)

text \<open>A 500 response with an empty body is flagged; a 200 response with a body is not.\<close>

theorem interesting_flag_iff_witness:
  "get_result (env_server_error 1) = Responded error_response
   \<and> status_code error_response = 500 \<and> length (content error_response) = 0
   \<and> flagged (fst (snd (iteration two_patterns 2 1 ''@@@'' (env_server_error 1))))
   \<and> get_result (env_ok 1) = Responded ok_response
   \<and> status_code ok_response = 200 \<and> length (content ok_response) = 2
   \<and> \<not> flagged (fst (snd (iteration two_patterns 2 1 ''@@@'' (env_ok 1))))"
proof -
  have a: "get_result (env_server_error 1) = Responded error_response"
    by (simp add: env_server_error_def env_of_def)
  have b: "get_result (env_ok 1) = Responded ok_response"
    by (simp add: env_ok_def env_of_def)
  show ?thesis
    using interesting_flag_iff[OF a, of two_patterns 2 1 "''@@@''"]
      interesting_flag_iff[OF b, of two_patterns 2 1 "''@@@''"] a b
    by (simp add: error_response_def ok_response_def)
qed

text \<open>
  Claim C3, as the code has it. In every iteration whose request raises a transport
  failure the driver appends exactly one record, which holds the pattern, the encoded
  pattern, the URL, the string form of the exception as its error description, and
  a timestamp, and no status code; the loop continues, and the next pattern, if there
  is one, is requested.
\<close>

theorem transport_failure_recorded:
  assumes "get_result (env i) = RequestException e"
  shows "(\<exists>r. results (fst (iteration self total_patterns i pattern (env i))) = results self @ [r]
            \<and> field ''pattern'' r = Some (JStr pattern)
            \<and> field ''encoded_pattern'' r = Some (JStr (encoded pattern))
            \<and> field ''url'' r = Some (JStr (base_url self @ encoded pattern))
            \<and> field ''error'' r = Some (JStr e)
            \<and> field ''timestamp'' r = Some (JStr (record_time (env i)))
            \<and> field ''status_code'' r = None)
         \<and> snd (snd (iteration self total_patterns i pattern (env i))) = Continue
         \<and> HttpGet (base_url self @ encoded next_pattern)
              \<in> set (snd (fuzz_loop self total_patterns i (pattern # next_pattern # rest) env))"
proof -
  have ni: "\<not> interrupted (env i)" using assms by (simp add: interrupted_def)
  have "results (fst (iteration self total_patterns i pattern (env i))) = results self @
      [error_result_dict pattern (encoded pattern) (base_url self @ encoded pattern) e
         (record_time (env i))]"
    using assms by (simp add: iteration_fuzzer)
  moreover have "snd (snd (iteration self total_patterns i pattern (env i))) = Continue"
    using ni by (simp add: iteration_flow)
  ultimately show ?thesis
    using next_pattern_requested[where env=env and i=i, OF ni] by (simp add: field_def error_result_dict_def)
qed

theorem transport_failure_recorded_witness:
  "get_result (env_failure_first 1) = RequestException ''timed out''
   \<and> map (field ''error'')
         (results (fst (iteration two_patterns 2 1 ''@@@'' (env_failure_first 1))))
       = [Some (JStr ''timed out'')]
   \<and> snd (snd (iteration two_patterns 2 1 ''@@@'' (env_failure_first 1))) = Continue
   \<and> HttpGet (base_url two_patterns @ encoded ''1@2@3@4'')
        \<in> set (snd (fuzz_loop two_patterns 2 1 [''@@@'', ''1@2@3@4''] env_failure_first))"
proof -
  have a: "get_result (env_failure_first 1) = RequestException ''timed out''"
    by (simp add: env_failure_first_def env_of_def)
  have fresh: "results two_patterns = []" by (simp add: two_patterns_def init_def)
  obtain r where
    "results (fst (iteration two_patterns 2 1 ''@@@'' (env_failure_first 1)))
       = results two_patterns @ [r]"
    "field ''error'' r = Some (JStr ''timed out'')"
    and rest: "snd (snd (iteration two_patterns 2 1 ''@@@'' (env_failure_first 1))) = Continue"
      "HttpGet (base_url two_patterns @ encoded ''1@2@3@4'')
        \<in> set (snd (fuzz_loop two_patterns 2 1 [''@@@'', ''1@2@3@4''] env_failure_first))"
    using transport_failure_recorded[where env=env_failure_first and i=1 and self=two_patterns
        and pattern="''@@@''" and total_patterns=2 and next_pattern="''1@2@3@4''" and rest="[]",
        OF a]
    by blast
  then show ?thesis using a fresh by simp
qed

text \<open>
  The error description is whatever string the exception gives: a transport failure
  whose string form is empty leaves a record with an empty error description.
\<close>

theorem empty_error_description_counterexample:
  "get_result (env_empty_error 1) = RequestException ''''
   \<and> map (field ''error'') (results (fst (fuzz_loop two_patterns 1 1 [''@@@''] env_empty_error)))
       = [Some (JStr '''')]"
  by code_simp

text \<open>
  Claim C8. The pause is the last statement of the \<open>try\<close> body, so an iteration that
  ends in the handler of a transport failure does not pause: when the first of two
  requests fails, the second one is sent with no pause in between.
\<close>

theorem no_pause_after_transport_failure:
  "\<not> paused_between (delay two_patterns) False
       (snd (fuzz_loop two_patterns 2 1 [''@@@'', ''1@2@3@4''] env_failure_first))"
  by code_simp

subsection \<open>Invariants of the loop\<close>

lemma iteration_log_file: "log_file (fst (iteration self t i p env)) = log_file self"
  by (simp add: iteration_fuzzer split: get_outcome.splits)

lemma fuzz_loop_log_file: "log_file (fst (fuzz_loop self t i ps env)) = log_file self"
proof (induction ps arbitrary: self i)
  case Nil
  then show ?case by simp
next
  case (Cons p ps)
  show ?case
  proof (cases "interrupted (env i)")
    case True
    show ?thesis
      unfolding fuzz_loop_break[where env=env and i=i, OF True] fst_conv
      by (rule iteration_log_file)
  next
    case False
    show ?thesis
      unfolding fuzz_loop_continue[where env=env and i=i, OF False] fst_conv
      by (simp only: Cons.IH iteration_log_file)
  qed
qed

lemma iteration_one_variant:
  assumes "\<forall>r \<in> set (results self). one_variant r"
  shows "\<forall>r \<in> set (results (fst (iteration self t i p env))). one_variant r"
proof (cases "get_result env")
  case (Responded r)
  have "one_variant (result_dict p enc url r cf now)" for enc url cf now
    by (simp add: one_variant_def has_key_def result_dict_def)
  then show ?thesis using assms Responded by (simp add: iteration_fuzzer)
next
  case (RequestException e)
  have "one_variant (error_result_dict p enc url e now)" for enc url now
    by (simp add: one_variant_def has_key_def error_result_dict_def)
  then show ?thesis using assms RequestException by (simp add: iteration_fuzzer)
next
  case GetKeyboardInterrupt
  then show ?thesis using assms by (simp add: iteration_fuzzer)
next
  case (GetException e)
  then show ?thesis using assms by (simp add: iteration_fuzzer)
qed

lemma fuzz_loop_one_variant:
  assumes "\<forall>r \<in> set (results self). one_variant r"
  shows "\<forall>r \<in> set (results (fst (fuzz_loop self t i ps env))). one_variant r"
  using assms
proof (induction ps arbitrary: self i)
  case Nil
  then show ?case by simp
next
  case (Cons p ps)
  note iv = iteration_one_variant[OF Cons.prems, of t i p "env i"]
  show ?case
  proof (cases "interrupted (env i)")
    case True
    show ?thesis
      unfolding fuzz_loop_break[where env=env and i=i, OF True] fst_conv by (rule iv)
  next
    case False
    show ?thesis
      unfolding fuzz_loop_continue[where env=env and i=i, OF False] fst_conv
      by (rule Cons.IH[OF iv])
  qed
qed

lemma filter_partition_length:
  "\<forall>r \<in> set rs. P r \<noteq> Q r \<Longrightarrow> length (filter P rs) + length (filter Q rs) = length rs"
  by (induction rs) auto

lemma filter_subset_length:
  "\<forall>r \<in> set rs. P r \<longrightarrow> Q r \<Longrightarrow> length (filter P rs) \<le> length (filter Q rs)"
  by (induction rs) auto

lemma count_status_codes_total:
  "\<forall>r \<in> set rs. has_key ''status_code'' r \<Longrightarrow> \<exists>codes. count_status_codes rs acc = Some codes"
  by (induction rs arbitrary: acc) (auto simp: has_key_def)

lemma print_summary_total:
  "\<exists>codes. print_summary self =
     Some \<lparr>total_count = length (results self),
           successful_count = length (filter (has_key ''status_code'') (results self)),
           error_count = length (filter (has_key ''error'') (results self)),
           curl_files_count =
             length (filter (\<lambda>r. has_key ''curl_file'' r \<and> map_of r ''curl_file'' \<noteq> Some JNone)
                       (results self)),
           status_codes = codes\<rparr>
     \<and> count_status_codes (filter (has_key ''status_code'') (results self)) [] = Some codes"
proof -
  obtain codes where
    "count_status_codes (filter (has_key ''status_code'') (results self)) [] = Some codes"
    using count_status_codes_total[of "filter (has_key ''status_code'') (results self)" "[]"]
    by auto
  then show ?thesis by (simp add: print_summary_def)
qed

subsection \<open>Status-code frequencies\<close>


subsection \<open>Artifact write failures\<close>

text \<open>
  Claim C7. When the request returned a response and writing the artifact raises,
  \<open>save_curl_response\<close> returns \<open>None\<close>, the success record is appended with
  \<open>curl_file\<close> absent, and the loop goes on exactly as the pause decides: it continues
  with the next pattern when the pause completes.
\<close>

theorem artifact_failure_absorbed:
  assumes "get_result (env i) = Responded r" and "write_result (env i) = WriteException e"
  shows "fst (save_curl_response self pattern (encoded pattern) r (int i) (env i)) = None
     \<and> (\<exists>rec. results (fst (iteration self total_patterns i pattern (env i))) = results self @ [rec]
            \<and> field ''status_code'' rec = Some (JInt (status_code r))
            \<and> field ''curl_file'' rec = Some JNone)
     \<and> snd (snd (iteration self total_patterns i pattern (env i)))
          = (if sleep_result (env i) = Slept then Continue else Break)
     \<and> (sleep_result (env i) = Slept \<longrightarrow>
          HttpGet (base_url self @ encoded next_pattern)
            \<in> set (snd (fuzz_loop self total_patterns i (pattern # next_pattern # rest) env)))"
proof -
  have s: "fst (save_curl_response self pattern (encoded pattern) r (int i) (env i)) = None"
    using assms(2) by (simp add: save_curl_response_def)
  have "results (fst (iteration self total_patterns i pattern (env i))) = results self @
      [result_dict pattern (encoded pattern) (base_url self @ encoded pattern) r None
         (record_time (env i))]"
    using assms(1) s by (simp add: iteration_fuzzer)
  then have rec: "\<exists>rec. results (fst (iteration self total_patterns i pattern (env i)))
                      = results self @ [rec]
            \<and> field ''status_code'' rec = Some (JInt (status_code r))
            \<and> field ''curl_file'' rec = Some JNone"
    by (simp add: field_def result_dict_def)
  have i: "interrupted (env i) \<longleftrightarrow> sleep_result (env i) \<noteq> Slept"
    using assms(1) by (cases "sleep_result (env i)") (simp_all add: interrupted_def)
  have fl: "snd (snd (iteration self total_patterns i pattern (env i)))
          = (if sleep_result (env i) = Slept then Continue else Break)"
    using i by (simp add: iteration_flow)
  have nx: "sleep_result (env i) = Slept \<longrightarrow>
          HttpGet (base_url self @ encoded next_pattern)
            \<in> set (snd (fuzz_loop self total_patterns i (pattern # next_pattern # rest) env))"
    using i next_pattern_requested[where env=env and i=i] by simp
  show ?thesis using s rec fl nx by blast
qed

theorem artifact_failure_absorbed_witness:
  "get_result (env_write_fails 1) = Responded ok_response
   \<and> write_result (env_write_fails 1) = WriteException ''disk full''
   \<and> sleep_result (env_write_fails 1) = Slept
   \<and> fst (save_curl_response two_patterns ''@@@'' (encoded ''@@@'') ok_response 1
            (env_write_fails 1)) = None
   \<and> snd (snd (iteration two_patterns 2 1 ''@@@'' (env_write_fails 1))) = Continue
   \<and> HttpGet (base_url two_patterns @ encoded ''1@2@3@4'')
        \<in> set (snd (fuzz_loop two_patterns 2 1 [''@@@'', ''1@2@3@4''] env_write_fails))"
proof -
  have a: "get_result (env_write_fails 1) = Responded ok_response"
    and b: "write_result (env_write_fails 1) = WriteException ''disk full''"
    and c: "sleep_result (env_write_fails 1) = Slept"
    by (simp_all add: env_write_fails_def env_of_def)
  show ?thesis
    using artifact_failure_absorbed[where env=env_write_fails and i=1 and self=two_patterns and pattern="''@@@''"
        and total_patterns=2 and next_pattern="''1@2@3@4''" and rest="[]", OF a b] a b c
    by simp
qed

lemma fuzz_server_unfold:
  assumes "map_option fst (generate_random_patterns self g) = Some patterns"
  shows "\<exists>report. fuzz_server self g env w =
           Some (fst (fuzz_loop self (length patterns) 1 patterns env),
                 [Print ''Generating random patterns...'',
                  Print (''Starting RANDOM fuzzing with '' @ str_nat (length patterns) @ '' patterns''),
                  Print (''Target: '' @ base_url self),
                  Print (''Curl responses saved to: '' @ curl_folder self @ ''/''),
                  Print (replicate 80 CHR ''-'')]
                 @ snd (fuzz_loop self (length patterns) 1 patterns env)
                 @ save_results (fst (fuzz_loop self (length patterns) 1 patterns env)) w,
                 report)
         \<and> print_summary (fst (fuzz_loop self (length patterns) 1 patterns env)) = Some report"
proof -
  obtain g' where g: "generate_random_patterns self g = Some (patterns, g')"
    using assms by (cases "generate_random_patterns self g") auto
  obtain report where
    "print_summary (fst (fuzz_loop self (length patterns) 1 patterns env)) = Some report"
    using print_summary_total by blast
  then show ?thesis using g by (simp add: fuzz_server_def case_prod_beta Let_def)
qed

subsection \<open>Record variants and the summary\<close>

lemma generate_random_patterns_some:
  "\<exists>ps. map_option fst (generate_random_patterns self g) = Some ps"
  using generate_random_patterns_total[of self g] by auto

text \<open>
  Claim C10. A run that starts with an empty result list returns, and every record
  in its result list has exactly one of the keys \<open>status_code\<close> and \<open>error\<close>. So the
  successful count and the error count of the summary add up to the total count, and
  the records counted as saved artifacts are success records.
\<close>

theorem record_variants:
  assumes "results self = []"
  shows "\<exists>self' evs report. fuzz_server self g env log_write = Some (self', evs, report)
      \<and> (\<forall>r \<in> set (results self'). has_key ''status_code'' r \<noteq> has_key ''error'' r)
      \<and> successful_count report + error_count report = total_count report
      \<and> curl_files_count report
           = length (filter (\<lambda>r. has_key ''status_code'' r \<and> has_key ''curl_file'' r
                                   \<and> field ''curl_file'' r \<noteq> Some JNone) (results self'))
      \<and> curl_files_count report \<le> successful_count report"
proof -
  obtain patterns where ps: "map_option fst (generate_random_patterns self g) = Some patterns"
    using generate_random_patterns_some by blast
  let ?s = "fst (fuzz_loop self (length patterns) 1 patterns env)"
  obtain evs report where fs: "fuzz_server self g env log_write = Some (?s, evs, report)"
    and pr: "print_summary ?s = Some report"
    using fuzz_server_unfold[OF ps, of env log_write] by blast
  have inv: "\<forall>r \<in> set (results ?s). one_variant r"
    using assms by (intro fuzz_loop_one_variant) simp
  then have v: "\<forall>r \<in> set (results ?s). has_key ''status_code'' r \<noteq> has_key ''error'' r"
    by (simp add: one_variant_def)
  obtain codes where rep: "report =
     \<lparr>total_count = length (results ?s),
           successful_count = length (filter (has_key ''status_code'') (results ?s)),
           error_count = length (filter (has_key ''error'') (results ?s)),
           curl_files_count =
             length (filter (\<lambda>r. has_key ''curl_file'' r \<and> map_of r ''curl_file'' \<noteq> Some JNone)
                       (results ?s)),
           status_codes = codes\<rparr>"
    using print_summary_total[of ?s] pr by auto
  have sum: "successful_count report + error_count report = total_count report"
    unfolding rep using filter_partition_length[OF v] by simp
  have "filter (\<lambda>r. has_key ''curl_file'' r \<and> map_of r ''curl_file'' \<noteq> Some JNone) (results ?s)
      = filter (\<lambda>r. has_key ''status_code'' r \<and> has_key ''curl_file'' r
                                   \<and> field ''curl_file'' r \<noteq> Some JNone) (results ?s)"
    using inv by (intro filter_cong) (auto simp: one_variant_def field_def)
  then have cf: "curl_files_count report
           = length (filter (\<lambda>r. has_key ''status_code'' r \<and> has_key ''curl_file'' r
                                   \<and> field ''curl_file'' r \<noteq> Some JNone) (results ?s))"
    unfolding rep by simp
  have le: "curl_files_count report \<le> successful_count report"
    unfolding cf unfolding rep by (simp add: filter_subset_length)
  show ?thesis using fs v sum cf le by blast
qed

lemma failure_first_run:
  "map_option (snd \<circ> snd) (fuzz_server two_patterns id env_failure_first Written)
     = Some \<lparr>total_count = 2, successful_count = 1, error_count = 1, curl_files_count = 1,
             status_codes = [(JInt 200, 1)]\<rparr>"
  by code_simp

theorem record_variants_witness:
  "results two_patterns = []
   \<and> (\<exists>self' evs report.
         fuzz_server two_patterns id env_failure_first Written = Some (self', evs, report)
         \<and> successful_count report = 1 \<and> error_count report = 1 \<and> total_count report = 2
         \<and> (\<forall>r \<in> set (results self'). has_key ''status_code'' r \<noteq> has_key ''error'' r))"
proof -
  have fresh: "results two_patterns = []" by (simp add: two_patterns_def init_def)
  obtain self' evs report where
    fs: "fuzz_server two_patterns id env_failure_first Written = Some (self', evs, report)"
    and v: "\<forall>r \<in> set (results self'). has_key ''status_code'' r \<noteq> has_key ''error'' r"
    using record_variants[OF fresh, of id env_failure_first Written] by blast
  have "report = \<lparr>total_count = 2, successful_count = 1, error_count = 1, curl_files_count = 1,
             status_codes = [(JInt 200, 1)]\<rparr>"
    using failure_first_run fs by simp
  then show ?thesis using fresh fs v by simp
qed

section \<open>Runs with arrivals from outside\<close>

subsection \<open>Actions\<close>

lemma emitted_append: "emitted (xs @ ys) = emitted xs @ emitted ys"
  by (induction xs rule: emitted.induct) auto

lemma appended_append: "appended (xs @ ys) = appended xs @ appended ys"
  by (induction xs rule: appended.induct) auto

lemma emitted_map_Emit: "emitted (map Emit evs) = evs"
  by (induction evs) auto

lemma appended_map_Emit: "appended (map Emit evs) = []"
  by (induction evs) auto


lemma save_curl_response_results:
  "save_curl_response (self\<lparr>results := rs\<rparr>) p enc r n env = save_curl_response self p enc r n env"
  by (simp add: save_curl_response_def artifact_text_def Let_def split: write_outcome.splits)

lemma try_body_results:
  "try_body (self\<lparr>results := rs\<rparr>) t i p env = try_body self t i p env"
  by (simp add: try_body_def save_curl_response_results Let_def case_prod_beta
      split: get_outcome.splits)

lemma handler_results:
  "handler (self\<lparr>results := rs\<rparr>) t i p env e = handler self t i p env e"
  by (simp add: handler_def Let_def split: body_end.splits)

lemma iteration_with_arrivals_results:
  "iteration_with_arrivals (self\<lparr>results := rs\<rparr>) t i p env arr
     = iteration_with_arrivals self t i p env arr"
  by (simp add: iteration_with_arrivals_def try_body_results handler_results)




subsection \<open>One iteration\<close>




lemma no_arrival_fields: "in_body no_arrival = None" "in_handler no_arrival = None"
  by (simp_all add: no_arrival_def)


text \<open>Agreement with the run without arrivals.\<close>

lemma iteration_agrees:
  assumes "0 \<le> delay self"
  shows "iteration self t i p env =
           (self\<lparr>results := results self
                     @ appended (fst (iteration_with_arrivals self t i p env no_arrival))\<rparr>,
            emitted (fst (iteration_with_arrivals self t i p env no_arrival)),
            snd (snd (iteration self t i p env)))
         \<and> snd (iteration_with_arrivals self t i p env no_arrival)
             = Some (snd (snd (iteration self t i p env)))"
  using assms
  by (auto simp: iteration_def iteration_with_arrivals_def cut_body_def no_arrival_fields
      try_body_def handler_def Let_def case_prod_beta appended_append appended_map_Emit
      emitted_append emitted_map_Emit
      split: get_outcome.splits sleep_outcome.splits)

lemma break_is_interrupt:
  "snd (iteration_with_arrivals self t i p env arr) = Some Break
     \<longleftrightarrow> snd (cut_body (in_body arr) (try_body self t i p env)) = RaisedKeyboardInterrupt
         \<and> (case in_handler arr of None \<Rightarrow> True | Some m \<Rightarrow> 1 < m)"
  by (cases "snd (cut_body (in_body arr) (try_body self t i p env))")
     (auto simp: iteration_with_arrivals_def handler_def Let_def case_prod_beta
        split: option.splits)

subsection \<open>The loop\<close>

lemma fuzz_loop_agrees:
  assumes "0 \<le> delay self"
  shows "fuzz_loop_with_arrivals self t i ps env quiet = Some (fuzz_loop self t i ps env)"
  using assms
proof (induction ps arbitrary: self i)
  case Nil
  then show ?case by simp
next
  case (Cons p ps)
  let ?it = "iteration_with_arrivals self t i p (env i) no_arrival"
  let ?s = "self\<lparr>results := results self @ appended (fst ?it)\<rparr>"
  note ag = iteration_agrees[OF Cons.prems, of t i p "env i"]
  have it: "iteration self t i p (env i)
              = (?s, emitted (fst ?it), snd (snd (iteration self t i p (env i))))"
    and fl: "snd ?it = Some (snd (snd (iteration self t i p (env i))))"
    using ag by simp_all
  have d: "0 \<le> delay ?s" using Cons.prems by simp
  show ?case
  proof (cases "snd (snd (iteration self t i p (env i)))")
    case Continue
    have a: "fuzz_loop_with_arrivals self t i (p # ps) env quiet
          = (case fuzz_loop_with_arrivals ?s t (Suc i) ps env quiet of
               None \<Rightarrow> None | Some (self', evs) \<Rightarrow> Some (self', emitted (fst ?it) @ evs))"
      using fl Continue by (simp add: quiet_def case_prod_beta split: prod.splits)
    have b: "fuzz_loop self t i (p # ps) env
          = (fst (fuzz_loop ?s t (Suc i) ps env),
             emitted (fst ?it) @ snd (fuzz_loop ?s t (Suc i) ps env))"
      using Continue by (subst fuzz_loop.simps, subst it) (simp add: case_prod_beta)
    show ?thesis unfolding a b Cons.IH[OF d] by (simp add: case_prod_beta)
  next
    case Break
    have a: "fuzz_loop_with_arrivals self t i (p # ps) env quiet = Some (?s, emitted (fst ?it))"
      using fl Break by (simp add: quiet_def case_prod_beta split: prod.splits)
    have b: "fuzz_loop self t i (p # ps) env = (?s, emitted (fst ?it))"
      using Break by (subst fuzz_loop.simps, subst it) simp
    show ?thesis unfolding a b by simp
  qed
qed

lemma fuzz_server_agrees:
  assumes "0 \<le> delay self"
  shows "fuzz_server_with_arrivals self g env quiet log_write False = fuzz_server self g env log_write"
  by (simp add: fuzz_server_with_arrivals_def fuzz_server_def fuzz_loop_agrees[OF assms]
      banner_def Let_def case_prod_beta split: option.splits)


lemma loop_escapes:
  assumes "K < length ps"
    and "\<forall>j < K. snd (iteration_with_arrivals self t (i + j) (ps ! j) (env (i + j)) (arr (i + j)))
                  = Some Continue"
    and "snd (iteration_with_arrivals self t (i + K) (ps ! K) (env (i + K)) (arr (i + K))) = None"
  shows "fuzz_loop_with_arrivals self t i ps env arr = None"
  using assms
proof (induction K arbitrary: self i ps)
  case 0
  then obtain p rest where ps: "ps = p # rest" by (cases ps) auto
  obtain acts where it: "iteration_with_arrivals self t i p (env i) (arr i) = (acts, None)"
    using 0(3) ps by (cases "iteration_with_arrivals self t i p (env i) (arr i)") auto
  show ?case using ps it by simp
next
  case (Suc K)
  then obtain p rest where ps: "ps = p # rest" by (cases ps) auto
  obtain acts where it: "iteration_with_arrivals self t i p (env i) (arr i) = (acts, Some Continue)"
    using Suc.prems(2)[rule_format, of 0] ps
    by (cases "iteration_with_arrivals self t i p (env i) (arr i)") auto
  let ?s = "self\<lparr>results := results self @ appended acts\<rparr>"
  have k: "K < length rest" using Suc.prems(1) ps by simp
  have c: "\<forall>j < K. snd (iteration_with_arrivals ?s t (Suc i + j) (rest ! j) (env (Suc i + j))
                          (arr (Suc i + j))) = Some Continue"
    using Suc.prems(2) ps by (auto simp: iteration_with_arrivals_results)
  have b: "snd (iteration_with_arrivals ?s t (Suc i + K) (rest ! K) (env (Suc i + K))
                  (arr (Suc i + K))) = None"
    using Suc.prems(3) ps by (simp add: iteration_with_arrivals_results)
  show ?case using ps it Suc.IH[OF k c b] by simp
qed

subsection \<open>Interrupted runs\<close>




lemma server_escapes:
  assumes gen: "map_option fst (generate_random_patterns self g) = Some patterns"
    and K: "K < length patterns"
    and before: "\<forall>j \<in> {1..K}. ending_at self patterns env arr j = Some Continue"
    and at: "ending_at self patterns env arr (Suc K) = None"
  shows "fuzz_server_with_arrivals self g env arr log_write report_interrupted = None"
proof -
  let ?it = "\<lambda>j. iteration_with_arrivals self (length patterns) (1 + j) (patterns ! j)
                    (env (1 + j)) (arr (1 + j))"
  obtain g' where g: "generate_random_patterns self g = Some (patterns, g')"
    using gen by (cases "generate_random_patterns self g") auto
  have c: "\<forall>j < K. snd (?it j) = Some Continue"
  proof (intro allI impI)
    fix j assume "j < K"
    then have "1 + j \<in> {1..K}" by simp
    from before[rule_format, OF this] show "snd (?it j) = Some Continue"
      by (simp add: ending_at_def)
  qed
  have b: "snd (?it K) = None" using at by (simp add: ending_at_def)
  have "fuzz_loop_with_arrivals self (length patterns) 1 patterns env arr = None"
    by (rule loop_escapes[OF K c b])
  then show ?thesis using g by (simp add: fuzz_server_with_arrivals_def)
qed

text \<open>
  An interrupt raised inside a handler leaves \<open>fuzz_server\<close>: nothing is logged or
  summarised. A negative delay makes every pause raise, which the loop absorbs.
\<close>

lemma interrupt_in_handler_escapes:
  "fuzz_server_with_arrivals two_patterns id env_failure_first interrupt_in_handler Written False
     = None"
  by code_simp

lemma negative_delay_run:
  "map_option (length \<circ> results \<circ> fst)
     (fuzz_server_with_arrivals negative_delay id env_ok quiet Written False) = Some 2"
  by code_simp




end
